theory Spec2Isabelle
  imports Complex_Main
begin

section \<open>The ShoreSquad service worker\<close>

text \<open>
  The service worker (\<^verbatim>\<open>sw.js\<close>) registers five listeners on the worker's global
  scope: \<^verbatim>\<open>install\<close>, \<^verbatim>\<open>activate\<close>, \<^verbatim>\<open>fetch\<close>, \<^verbatim>\<open>push\<close> and
  \<^verbatim>\<open>notificationclick\<close>. The first four are embedded here, each as a function from the worker's
  observable state (cache storage, console, network requests issued, notifications shown)
  to the settlement of the promise it hands to the runtime and the state after every
  promise it started has settled. The promise chains of the source are sequential, so a
  chain \<^verbatim>\<open>p.then(f).catch(g)\<close> is a case distinction on the outcome of \<^verbatim>\<open>p\<close>.

  The primitives of the hosting runtime that the listeners call (\<^verbatim>\<open>caches.open\<close>,
  \<^verbatim>\<open>caches.match\<close>, \<^verbatim>\<open>caches.keys\<close>, \<^verbatim>\<open>caches.delete\<close>, \<^verbatim>\<open>cache.put\<close>,
  \<^verbatim>\<open>cache.addAll\<close>, \<^verbatim>\<open>fetch\<close>, \<^verbatim>\<open>respondWith\<close>, \<^verbatim>\<open>waitUntil\<close>) are not code of
  the repository; they are modelled after the Service Worker and Cache Storage
  interfaces they belong to, and what the network and the storage backend do is an
  explicit environment.
\<close>

subsection \<open>Requests, responses and errors\<close>

text \<open>
  A request is its method (the field \<open>rmethod\<close>) and its URL. URLs are site-relative paths, as in the asset
  list of the source; a request key is the URL (only \<^verbatim>\<open>GET\<close> requests are ever
  looked up or stored).
\<close>

record request =
  rmethod :: string
  url :: string

text \<open>The values of \<^verbatim>\<open>response.type\<close>.\<close>

datatype response_type = Basic | Cors | Default | Error | Opaque | OpaqueRedirect

record response =
  status :: nat
  rtype :: response_type
  content :: string

text \<open>The exceptions and rejection reasons that occur.\<close>

datatype js_error = TypeError | SyntaxError | QuotaExceededError

text \<open>\<^verbatim>\<open>new Request(path)\<close>, the request that a bare path stands for.\<close>

definition get_request :: "string \<Rightarrow> request" where
  "get_request path = \<lparr>rmethod = ''GET'', url = path\<rparr>"

subsection \<open>Cache storage\<close>

text \<open>
  A cache is a list of entries, request key and response, with at most one entry per
  key. Cache storage is the list of named caches (the cache generations) in the order
  of their creation, which is the order \<^verbatim>\<open>caches.keys()\<close> reports and
  \<^verbatim>\<open>caches.match\<close> searches.
\<close>

type_synonym cache = "(string \<times> response) list"

type_synonym cache_storage = "(string \<times> cache) list"

text \<open>\<^verbatim>\<open>cache.match(key)\<close>: the response stored under the key, if any.\<close>

definition cache_match :: "cache \<Rightarrow> string \<Rightarrow> response option" where
  "cache_match c key = map_of c key"

text \<open>
  \<^verbatim>\<open>cache.put(key, response)\<close> on one cache: an entry with the same key is
  replaced.
\<close>

definition cache_put_entry :: "string \<Rightarrow> response \<Rightarrow> cache \<Rightarrow> cache" where
  "cache_put_entry key r c = filter (\<lambda>(k, _). k \<noteq> key) c @ [(key, r)]"

text \<open>
  \<^verbatim>\<open>caches.match(key)\<close> on the storage: every cache is searched, in creation
  order, and the first entry found is the answer.
\<close>

fun caches_match :: "cache_storage \<Rightarrow> string \<Rightarrow> response option" where
  "caches_match [] key = None"
| "caches_match ((name, c) # cs) key =
     (case cache_match c key of
        Some r \<Rightarrow> Some r
      | None \<Rightarrow> caches_match cs key)"

text \<open>\<^verbatim>\<open>caches.has(name)\<close> and \<^verbatim>\<open>caches.keys()\<close>.\<close>

definition caches_has :: "cache_storage \<Rightarrow> string \<Rightarrow> bool" where
  "caches_has cs name = (name \<in> set (map fst cs))"

definition caches_keys :: "cache_storage \<Rightarrow> string list" where
  "caches_keys cs = map fst cs"

text \<open>\<^verbatim>\<open>caches.open(name)\<close>: the cache is created, empty, when there is none.\<close>

definition caches_open :: "string \<Rightarrow> cache_storage \<Rightarrow> cache_storage" where
  "caches_open name cs = (if caches_has cs name then cs else cs @ [(name, [])])"

text \<open>\<^verbatim>\<open>caches.delete(name)\<close>.\<close>

definition caches_delete :: "string \<Rightarrow> cache_storage \<Rightarrow> cache_storage" where
  "caches_delete name cs = filter (\<lambda>(n, _). n \<noteq> name) cs"

text \<open>The cache of a given name, and a put into it.\<close>

definition named_cache :: "cache_storage \<Rightarrow> string \<Rightarrow> cache option" where
  "named_cache cs name = map_of cs name"

definition cache_put :: "string \<Rightarrow> string \<Rightarrow> response \<Rightarrow> cache_storage \<Rightarrow> cache_storage" where
  "cache_put name key r cs =
     map (\<lambda>(n, c). if n = name then (n, cache_put_entry key r c) else (n, c)) cs"

subsection \<open>The worker's state and its environment\<close>

text \<open>
  The environment answers what the code cannot decide: what the network returns for a
  request (\<open>None\<close> when the fetch rejects, as it does offline) and whether the storage
  backend refuses to store under a key, and with which error (\<open>None\<close> when the
  store succeeds).
\<close>

record env =
  net :: "request \<Rightarrow> response option"
  store_error :: "string \<Rightarrow> js_error option"

text \<open>
  A JavaScript value as \<^verbatim>\<open>JSON.parse\<close> produces it; \<open>None\<close> of
  \<open>js_value option\<close> stands for \<^verbatim>\<open>undefined\<close>. The keys of a parsed object are
  distinct.
\<close>

datatype js_value =
    JNull
  | JBool bool
  | JNum rat
  | JStr string
  | JArr "js_value list"
  | JObj "(string \<times> js_value) list"

record notification_options =
  body :: js_value
  icon :: string
  badge :: string
  tag :: string
  requireInteraction :: bool

text \<open>
  The state: the cache storage; the lines written with \<^verbatim>\<open>console.log\<close>; the
  requests that reached the network, in order; the rejections of promises that no
  handler observes; the notifications shown, title and options; and the two flags set
  by \<^verbatim>\<open>self.skipWaiting()\<close> and \<^verbatim>\<open>self.clients.claim()\<close>.
\<close>

record sw_state =
  caches :: cache_storage
  console :: "string list"
  network_log :: "request list"
  unhandled :: "js_error list"
  notifications :: "(string \<times> notification_options) list"
  skip_waiting :: bool
  clients_claimed :: bool

subsection \<open>Configuration\<close>

definition CACHE_NAME :: string where
  "CACHE_NAME = ''shoresquad-v1''"

definition ASSETS_TO_CACHE :: "string list" where
  "ASSETS_TO_CACHE =
     [''/'', ''/index.html'', ''/css/styles.css'', ''/js/app.js'', ''/manifest.json'']"

text \<open>
  The icon and the badge of the notification are the same data URL; the wave emoji in
  it is written as the four bytes of its UTF-8 encoding.
\<close>

definition notification_icon :: string where
  \<open>notification_icon =
     ''data:image/svg+xml,<svg xmlns="http://www.w3.org/2000/svg" viewBox="0 0 100 100"><text y="50" font-size="50" text-anchor="middle" dominant-baseline="middle">''
     @ [CHR 0xF0, CHR 0x9F, CHR 0x8C, CHR 0x8A] @ ''</text></svg>''\<close>

definition default_body :: js_value where
  "default_body = JStr ''New update from ShoreSquad!''"

subsection \<open>Install\<close>

text \<open>
  \<^verbatim>\<open>cache.addAll(paths)\<close> fetches every path and stores the responses, all or
  none: the promise rejects, and nothing is stored, when a fetch rejects, when a
  response is an error response or has a status outside 200 to 299 or the status 206,
  or when the backend refuses a store. \<open>addAll_responses\<close> collects what is to be
  stored, or the reason of the rejection.
\<close>

definition addAll_acceptable :: "response \<Rightarrow> bool" where
  "addAll_acceptable r =
     (rtype r \<noteq> Error \<and> 200 \<le> status r \<and> status r \<le> 299 \<and> status r \<noteq> 206)"

fun addAll_responses :: "env \<Rightarrow> string list \<Rightarrow> js_error + (string \<times> response) list" where
  "addAll_responses e [] = Inr []"
| "addAll_responses e (p # ps) =
     (case net e (get_request p) of
        None \<Rightarrow> Inl TypeError
      | Some r \<Rightarrow>
          if \<not> addAll_acceptable r then Inl TypeError
          else (case store_error e p of
                  Some err \<Rightarrow> Inl err
                | None \<Rightarrow>
                    (case addAll_responses e ps of
                       Inl err \<Rightarrow> Inl err
                     | Inr rs \<Rightarrow> Inr ((p, r) # rs))))"

fun put_all :: "string \<Rightarrow> (string \<times> response) list \<Rightarrow> cache_storage \<Rightarrow> cache_storage" where
  "put_all name [] cs = cs"
| "put_all name ((p, r) # rs) cs = put_all name rs (cache_put name p r cs)"

definition cache_addAll :: "env \<Rightarrow> string \<Rightarrow> string list \<Rightarrow> sw_state \<Rightarrow> (js_error + unit) \<times> sw_state" where
  "cache_addAll e name paths st =
     (let st1 = st\<lparr>network_log := network_log st @ map get_request paths\<rparr>
      in case addAll_responses e paths of
           Inl err \<Rightarrow> (Inl err, st1)
         | Inr rs \<Rightarrow> (Inr (), st1\<lparr>caches := put_all name rs (caches st1)\<rparr>))"

text \<open>
  The listener:
  \<^verbatim>\<open>
  event.waitUntil(
      caches.open(CACHE_NAME).then(cache => {
          console.log('Caching app shell');
          return cache.addAll(ASSETS_TO_CACHE);
      })
  );
  self.skipWaiting();
  \<close>
  The first component of the result is the settlement of the promise given to
  \<^verbatim>\<open>waitUntil\<close>. \<^verbatim>\<open>self.skipWaiting()\<close> runs as soon as the chain has been
  started, before any of its callbacks; it sets a flag and touches nothing else.
\<close>

definition install_listener :: "env \<Rightarrow> sw_state \<Rightarrow> (js_error + unit) \<times> sw_state" where
  "install_listener e st =
     (let st1 = st\<lparr>skip_waiting := True\<rparr>;
          st2 = st1\<lparr>caches := caches_open CACHE_NAME (caches st1)\<rparr>;
          st3 = st2\<lparr>console := console st2 @ [''Caching app shell'']\<rparr>
      in cache_addAll e CACHE_NAME ASSETS_TO_CACHE st3)"

subsection \<open>Activate\<close>

text \<open>
  \<^verbatim>\<open>
  event.waitUntil(
      caches.keys().then(cacheNames => {
          return Promise.all(
              cacheNames.map(cacheName => {
                  if (cacheName !== CACHE_NAME) {
                      console.log('Deleting old cache:', cacheName);
                      return caches.delete(cacheName);
                  }
              })
          );
      })
  );
  self.clients.claim();
  \<close>
  \<open>activate_step\<close> is the callback of \<^verbatim>\<open>map\<close>, applied to each name in turn;
  \<^verbatim>\<open>Promise.all\<close> settles when every deletion has. \<^verbatim>\<open>caches.delete\<close> removes
  the named cache and resolves; it has no rejection in the interface it belongs to, so
  the promise given to \<^verbatim>\<open>waitUntil\<close> always resolves. \<^verbatim>\<open>self.clients.claim()\<close>
  sets its flag before the callbacks run.
\<close>

definition activate_step :: "sw_state \<Rightarrow> string \<Rightarrow> sw_state" where
  "activate_step st cacheName =
     (if cacheName \<noteq> CACHE_NAME
      then st\<lparr>console := console st @ [''Deleting old cache: '' @ cacheName],
              caches := caches_delete cacheName (caches st)\<rparr>
      else st)"

definition activate_listener :: "sw_state \<Rightarrow> (js_error + unit) \<times> sw_state" where
  "activate_listener st =
     (let st1 = st\<lparr>clients_claimed := True\<rparr>;
          cacheNames = caches_keys (caches st1)
      in (Inr (), foldl activate_step st1 cacheNames))"

subsection \<open>The worker's lifecycle\<close>

text \<open>
  The runtime drives a new worker through its lifecycle: it dispatches \<^verbatim>\<open>install\<close>
  and waits for the promise given to \<^verbatim>\<open>waitUntil\<close>; when that promise rejects the
  worker is discarded (redundant) and never activated; otherwise the worker is
  installed, and with the skip-waiting flag set it is activated at once.
\<close>

datatype worker_state = Installing | Installed | Activating | Activated | Redundant

definition run_install :: "env \<Rightarrow> sw_state \<Rightarrow> worker_state \<times> sw_state" where
  "run_install e st =
     (case install_listener e st of
        (Inl err, st') \<Rightarrow> (Redundant, st')
      | (Inr _, st') \<Rightarrow> (Installed, st'))"

definition run_lifecycle :: "env \<Rightarrow> sw_state \<Rightarrow> worker_state \<times> sw_state" where
  "run_lifecycle e st =
     (case run_install e st of
        (Installed, st') \<Rightarrow>
          if skip_waiting st' then (Activated, snd (activate_listener st'))
          else (Installed, st')
      | (w, st') \<Rightarrow> (w, st'))"

subsection \<open>Fetch\<close>

text \<open>
  What the listener does with the event: it returns without calling
  \<^verbatim>\<open>respondWith\<close>, or it calls \<^verbatim>\<open>respondWith\<close> with a promise that resolves to
  a response or to \<^verbatim>\<open>undefined\<close> (\<open>None\<close>). No promise given to
  \<^verbatim>\<open>respondWith\<close> rejects: the only rejection in the chain, that of \<^verbatim>\<open>fetch\<close>,
  is caught.
\<close>

datatype fetch_action = NotIntercepted | RespondWith "response option"

text \<open>
  The detached chain of the source,
  \<^verbatim>\<open>
  caches.open(CACHE_NAME).then(cache => {
      cache.put(event.request, responseToCache);
  });
  \<close>
  Nothing waits for it and nothing handles its rejection: when the store fails the
  rejection is left unhandled and the cache keeps what it had.
\<close>

definition store_response :: "env \<Rightarrow> request \<Rightarrow> response \<Rightarrow> sw_state \<Rightarrow> sw_state" where
  "store_response e req responseToCache st =
     (let st1 = st\<lparr>caches := caches_open CACHE_NAME (caches st)\<rparr>
      in case store_error e (url req) of
           Some err \<Rightarrow> st1\<lparr>unhandled := unhandled st1 @ [err]\<rparr>
         | None \<Rightarrow> st1\<lparr>caches := cache_put CACHE_NAME (url req) responseToCache (caches st1)\<rparr>)"

text \<open>
  The listener:
  \<^verbatim>\<open>
  if (event.request.method !== 'GET') {
      return;
  }
  event.respondWith(
      caches.match(event.request).then(response => {
          if (response) {
              return response;
          }
          return fetch(event.request).then(response => {
              if (!response || response.status !== 200 || response.type === 'error') {
                  return response;
              }
              const responseToCache = response.clone();
              caches.open(CACHE_NAME).then(cache => {
                  cache.put(event.request, responseToCache);
              });
              return response;
          }).catch(() => {
              return caches.match('/index.html');
          });
      })
  );
  \<close>
  \<^verbatim>\<open>fetch\<close> resolves with a response object, and an object is never falsy, so
  \<^verbatim>\<open>!response\<close> is false in the inner callback. A clone is equal to the response
  it is taken from.
\<close>

definition fetch_listener :: "env \<Rightarrow> sw_state \<Rightarrow> request \<Rightarrow> fetch_action \<times> sw_state" where
  "fetch_listener e st req =
     (if rmethod req \<noteq> ''GET'' then (NotIntercepted, st)
      else
        (case caches_match (caches st) (url req) of
           Some response \<Rightarrow> (RespondWith (Some response), st)
         | None \<Rightarrow>
             (let st1 = st\<lparr>network_log := network_log st @ [req]\<rparr>
              in case net e req of
                   Some response \<Rightarrow>
                     if status response \<noteq> 200 \<or> rtype response = Error
                     then (RespondWith (Some response), st1)
                     else (RespondWith (Some response), store_response e req response st1)
                 | None \<Rightarrow>
                     (RespondWith (caches_match (caches st1) ''/index.html''), st1))))"

text \<open>
  What the page that made the request gets. When the listener has not called
  \<^verbatim>\<open>respondWith\<close> the runtime performs the request itself, as it is; when the
  promise given to \<^verbatim>\<open>respondWith\<close> resolves to a response, that response is
  delivered; when it resolves to anything else the request fails with a network error.
\<close>

datatype page_result = Delivered response | NetworkError

definition dispatch_fetch :: "env \<Rightarrow> sw_state \<Rightarrow> request \<Rightarrow> page_result \<times> sw_state" where
  "dispatch_fetch e st req =
     (case fetch_listener e st req of
        (NotIntercepted, st') \<Rightarrow>
          ((case net e req of Some r \<Rightarrow> Delivered r | None \<Rightarrow> NetworkError),
           st'\<lparr>network_log := network_log st' @ [req]\<rparr>)
      | (RespondWith (Some r), st') \<Rightarrow> (Delivered r, st')
      | (RespondWith None, st') \<Rightarrow> (NetworkError, st'))"

subsection \<open>Push\<close>

text \<open>
  \<^verbatim>\<open>event.data\<close> is \<^verbatim>\<open>null\<close> (\<open>None\<close>) or a message object, whose method
  \<^verbatim>\<open>json()\<close> parses the payload: it returns the parsed value or throws.
\<close>

datatype push_message_data = PushMessageData (json: "js_error + js_value")

text \<open>
  \<^verbatim>\<open>data.body\<close>: reading a property of \<^verbatim>\<open>null\<close> throws; an object has the
  property when its fields have it; no other parsed value has a property of that name.
\<close>

fun get_body :: "js_value \<Rightarrow> js_error + js_value option" where
  "get_body JNull = Inl TypeError"
| "get_body (JObj props) = Inr (map_of props ''body'')"
| "get_body v = Inr None"

text \<open>A value is truthy unless it is \<^verbatim>\<open>null\<close>, \<^verbatim>\<open>false\<close>, zero or the empty string.\<close>

fun truthy :: "js_value \<Rightarrow> bool" where
  "truthy JNull = False"
| "truthy (JBool b) = b"
| "truthy (JNum n) = (n \<noteq> 0)"
| "truthy (JStr s) = (s \<noteq> [])"
| "truthy (JArr vs) = True"
| "truthy (JObj props) = True"

text \<open>\<^verbatim>\<open>a || b\<close>, where \<^verbatim>\<open>a\<close> may be undefined.\<close>

definition js_or :: "js_value option \<Rightarrow> js_value \<Rightarrow> js_value" where
  "js_or a b = (case a of None \<Rightarrow> b | Some v \<Rightarrow> if truthy v then v else b)"

definition showNotification :: "string \<Rightarrow> notification_options \<Rightarrow> sw_state \<Rightarrow> sw_state" where
  "showNotification title options st = st\<lparr>notifications := notifications st @ [(title, options)]\<rparr>"

text \<open>
  The listener:
  \<^verbatim>\<open>
  const data = event.data ? event.data.json() : {};
  const options = {
      body: data.body || 'New update from ShoreSquad!',
      icon: ..., badge: ..., tag: 'shoresquad-notification',
      requireInteraction: false
  };
  event.waitUntil(
      self.registration.showNotification('ShoreSquad', options)
  );
  \<close>
  There is no \<^verbatim>\<open>try\<close> in the listener: an exception of \<^verbatim>\<open>json()\<close> or of the
  property read leaves the listener before anything is shown. The worker receives push
  messages because the permission to notify was granted, so \<^verbatim>\<open>showNotification\<close>
  shows.
\<close>

definition push_listener :: "push_message_data option \<Rightarrow> sw_state \<Rightarrow> (js_error + unit) \<times> sw_state" where
  "push_listener event_data st =
     (case (case event_data of Some d \<Rightarrow> json d | None \<Rightarrow> Inr (JObj [])) of
        Inl err \<Rightarrow> (Inl err, st)
      | Inr data \<Rightarrow>
          (case get_body data of
             Inl err \<Rightarrow> (Inl err, st)
           | Inr b \<Rightarrow>
               (let options = \<lparr>body = js_or b default_body,
                               icon = notification_icon,
                               badge = notification_icon,
                               tag = ''shoresquad-notification'',
                               requireInteraction = False\<rparr>
                in (Inr (), showNotification ''ShoreSquad'' options st))))"

subsection \<open>Observations and example inputs\<close>

text \<open>The entry of a key in the current cache generation, the one named \<open>CACHE_NAME\<close>.\<close>

definition current_cache_match :: "cache_storage \<Rightarrow> string \<Rightarrow> response option" where
  "current_cache_match cs key =
     (case named_cache cs CACHE_NAME of
        None \<Rightarrow> None
      | Some c \<Rightarrow> cache_match c key)"

text \<open>The options of the notification that carries the canned text.\<close>

definition default_options :: notification_options where
  "default_options =
     \<lparr>body = default_body,
      icon = notification_icon,
      badge = notification_icon,
      tag = ''shoresquad-notification'',
      requireInteraction = False\<rparr>"

text \<open>Concrete responses, environments and states, used to run the listeners.\<close>

definition page_ok :: response where
  "page_ok = \<lparr>status = 200, rtype = Basic, content = ''<html>ShoreSquad</html>''\<rparr>"

definition events_ok :: response where
  "events_ok = \<lparr>status = 200, rtype = Basic, content = ''[]''\<rparr>"

definition env_online :: env where
  "env_online = \<lparr>net = (\<lambda>req. Some page_ok), store_error = (\<lambda>key. None)\<rparr>"

definition env_offline :: env where
  "env_offline = \<lparr>net = (\<lambda>req. None), store_error = (\<lambda>key. None)\<rparr>"

definition env_quota :: env where
  "env_quota = \<lparr>net = (\<lambda>req. Some events_ok), store_error = (\<lambda>key. Some QuotaExceededError)\<rparr>"

definition state_with :: "cache_storage \<Rightarrow> sw_state" where
  "state_with cs =
     \<lparr>caches = cs, console = [], network_log = [], unhandled = [], notifications = [],
      skip_waiting = False, clients_claimed = False\<rparr>"

definition state_empty :: sw_state where
  "state_empty = state_with []"

definition state_old_generation :: sw_state where
  "state_old_generation = state_with [(''shoresquad-v0'', [(''/events'', events_ok)])]"

definition state_current :: sw_state where
  "state_current = state_with [(''shoresquad-v1'', [(''/index.html'', page_ok)])]"

definition state_upgrade :: sw_state where
  "state_upgrade =
     state_with [(''shoresquad-v0'', [(''/index.html'', page_ok)]),
                 (''shoresquad-v1'', [(''/index.html'', page_ok)])]"

definition page_old :: response where
  "page_old = \<lparr>status = 200, rtype = Basic, content = ''<html>ShoreSquad, old</html>''\<rparr>"

definition state_stale_entry :: sw_state where
  "state_stale_entry =
     state_with [(''shoresquad-v0'', [(''/index.html'', page_old)]),
                 (''shoresquad-v1'', [(''/index.html'', page_ok)])]"

text \<open>An opaque response, as a cross-origin fetch without CORS yields it: its status is 0.\<close>

definition opaque_response :: response where
  "opaque_response = \<lparr>status = 0, rtype = Opaque, content = []\<rparr>"

definition env_opaque :: env where
  "env_opaque = \<lparr>net = (\<lambda>req. Some opaque_response), store_error = (\<lambda>key. None)\<rparr>"

definition post_request :: request where
  "post_request = \<lparr>rmethod = ''POST'', url = ''/events''\<rparr>"

definition invalid_payload :: push_message_data where
  "invalid_payload = PushMessageData (Inl SyntaxError)"

definition empty_body_payload :: push_message_data where
  "empty_body_payload = PushMessageData (Inr (JObj [(''body'', JStr [])]))"

section \<open>Properties of the cache storage\<close>

lemma map_of_cache_put_entry:
  "map_of (cache_put_entry key r c) k = (if k = key then Some r else map_of c k)"
  by (induction c) (auto simp: cache_put_entry_def)

lemma cache_match_put_entry:
  "cache_match (cache_put_entry key r c) k = (if k = key then Some r else cache_match c k)"
  by (simp add: cache_match_def map_of_cache_put_entry)

lemma caches_match_append:
  "caches_match (cs @ ds) key =
     (case caches_match cs key of Some r \<Rightarrow> Some r | None \<Rightarrow> caches_match ds key)"
  by (induction cs) (auto split: option.splits)

lemma caches_match_open: "caches_match (caches_open name cs) key = caches_match cs key"
  by (simp add: caches_open_def caches_match_append cache_match_def split: option.splits)

lemma caches_match_None_iff:
  "caches_match cs key = None \<longleftrightarrow> (\<forall>(n, c) \<in> set cs. cache_match c key = None)"
  by (induction cs) (auto split: option.splits)

lemma caches_match_SomeD:
  "caches_match cs key = Some r \<Longrightarrow> \<exists>n c. (n, c) \<in> set cs \<and> cache_match c key = Some r"
proof (induction cs)
  case Nil
  then show ?case by simp
next
  case (Cons a cs)
  obtain n c where a: "a = (n, c)" by (cases a)
  show ?case
  proof (cases "cache_match c key")
    case None
    with Cons a obtain n' c' where "(n', c') \<in> set cs" "cache_match c' key = Some r"
      by auto
    then show ?thesis by auto
  next
    case (Some r')
    with Cons.prems a have "cache_match c key = Some r" by simp
    with a show ?thesis by auto
  qed
qed

lemma caches_has_open: "caches_has (caches_open name cs) name"
  by (auto simp: caches_open_def caches_has_def)

lemma caches_match_put:
  "caches_match cs key = None \<Longrightarrow> caches_has cs name \<Longrightarrow>
   caches_match (cache_put name key r cs) key = Some r"
proof (induction cs)
  case Nil
  then show ?case by (simp add: caches_has_def)
next
  case (Cons a cs)
  obtain n c where a: "a = (n, c)" by (cases a)
  from Cons.prems(1) a have m: "cache_match c key = None" "caches_match cs key = None"
    by (auto split: option.splits)
  show ?case
  proof (cases "n = name")
    case True
    then show ?thesis using a by (simp add: cache_put_def cache_match_put_entry)
  next
    case False
    with Cons.prems(2) a have "caches_has cs name" by (auto simp: caches_has_def)
    with Cons.IH m have "caches_match (cache_put name key r cs) key = Some r" by simp
    then show ?thesis using a False m by (simp add: cache_put_def)
  qed
qed

lemma named_cache_put:
  "named_cache (cache_put name key r cs) n =
     (if n = name then map_option (cache_put_entry key r) (named_cache cs n) else named_cache cs n)"
  by (induction cs) (auto simp: cache_put_def named_cache_def)

lemma named_cache_has: "caches_has cs name \<Longrightarrow> \<exists>c. named_cache cs name = Some c"
  by (induction cs) (auto simp: caches_has_def named_cache_def)

lemma current_match_put:
  "caches_has cs CACHE_NAME \<Longrightarrow>
   current_cache_match (cache_put CACHE_NAME key r cs) k =
     (if k = key then Some r else current_cache_match cs k)"
  using named_cache_has[of cs CACHE_NAME]
  by (auto simp: current_cache_match_def named_cache_put cache_match_put_entry)

lemma current_match_miss:
  "caches_match cs key = None \<Longrightarrow> current_cache_match cs key = None"
  by (auto simp: current_cache_match_def named_cache_def caches_match_None_iff
      split: option.splits dest!: map_of_SomeD)

lemma named_cache_open:
  "named_cache (caches_open name cs) n =
     (case named_cache cs n of
        Some c \<Rightarrow> Some c
      | None \<Rightarrow> if n = name \<and> \<not> caches_has cs name then Some [] else None)"
  by (induction cs) (auto simp: named_cache_def caches_open_def caches_has_def split: option.splits)

lemma current_match_open:
  "current_cache_match (caches_open name cs) key = current_cache_match cs key"
  by (simp add: current_cache_match_def named_cache_open cache_match_def split: option.splits)

section \<open>Handle Fetch\<close>

lemma fetch_listener_miss_response:
  assumes "rmethod req = ''GET''"
    and "caches_match (caches st) (url req) = None"
    and "net e req = Some resp"
  shows "fetch_listener e st req =
    (RespondWith (Some resp),
     if status resp \<noteq> 200 \<or> rtype resp = Error
     then st\<lparr>network_log := network_log st @ [req]\<rparr>
     else store_response e req resp (st\<lparr>network_log := network_log st @ [req]\<rparr>))"
  using assms by (simp add: fetch_listener_def)

lemma caches_store_response:
  "caches (store_response e req resp st) =
     (case store_error e (url req) of
        Some err \<Rightarrow> caches_open CACHE_NAME (caches st)
      | None \<Rightarrow> cache_put CACHE_NAME (url req) resp (caches_open CACHE_NAME (caches st)))"
  by (simp add: store_response_def split: option.splits)

text \<open>
  Claim C3. A request whose method is not \<^verbatim>\<open>GET\<close> is not intercepted: the listener
  returns without calling \<^verbatim>\<open>respondWith\<close> and leaves the state as it is (nothing
  is looked up, fetched or stored), so the runtime performs the request itself, as it
  is, and the page gets what the network answers.
\<close>

theorem fetch_non_get_not_intercepted:
  assumes "rmethod req \<noteq> ''GET''"
  shows "fetch_listener e st req = (NotIntercepted, st)
       \<and> dispatch_fetch e st req =
           ((case net e req of Some r \<Rightarrow> Delivered r | None \<Rightarrow> NetworkError),
            st\<lparr>network_log := network_log st @ [req]\<rparr>)"
  using assms by (simp add: fetch_listener_def dispatch_fetch_def)

text \<open>
  The claim at a \<^verbatim>\<open>POST\<close> request, with \<^verbatim>\<open>/index.html\<close> cached.
\<close>

theorem fetch_non_get_not_intercepted_witness:
  "rmethod post_request \<noteq> ''GET''
   \<and> fetch_listener env_online state_current post_request = (NotIntercepted, state_current)
   \<and> fst (dispatch_fetch env_online state_current post_request) = Delivered page_ok
   \<and> caches (snd (dispatch_fetch env_online state_current post_request)) = caches state_current
   \<and> network_log (snd (dispatch_fetch env_online state_current post_request)) = [post_request]"
proof -
  have 1: "rmethod post_request \<noteq> ''GET''" by (simp add: post_request_def)
  from fetch_non_get_not_intercepted[OF 1, of env_online state_current] 1 show ?thesis
    by (simp add: env_online_def state_current_def state_with_def)
qed

lemma first_generation_with_key:
  "(n, c) \<in> set cs \<Longrightarrow> cache_match c key = Some r0 \<Longrightarrow>
   \<exists>pre n' c' post r. cs = pre @ (n', c') # post
      \<and> (\<forall>(m, d) \<in> set pre. cache_match d key = None)
      \<and> cache_match c' key = Some r"
proof (induction cs)
  case Nil
  then show ?case by simp
next
  case (Cons a cs)
  obtain m d where a: "a = (m, d)" by (cases a)
  show ?case
  proof (cases "cache_match d key")
    case (Some r)
    show ?thesis
    proof (intro exI)
      from Some a show "a # cs = [] @ (m, d) # cs
        \<and> (\<forall>(m, d) \<in> set []. cache_match d key = None) \<and> cache_match d key = Some r"
        by simp
    qed
  next
    case None
    with Cons.prems a have "(n, c) \<in> set cs" by auto
    from Cons.IH[OF this Cons.prems(2)] obtain pre n' c' post r where
      h: "cs = pre @ (n', c') # post" "\<forall>(m, d) \<in> set pre. cache_match d key = None"
         "cache_match c' key = Some r" by blast
    show ?thesis
    proof (intro exI)
      from h None a show "a # cs = (a # pre) @ (n', c') # post
        \<and> (\<forall>(m, d) \<in> set (a # pre). cache_match d key = None) \<and> cache_match c' key = Some r"
        by simp
    qed
  qed
qed

text \<open>
  Claim C2, as stated, fails in which response is returned: with the key in the current
  generation and another entry for it in the older generation \<^verbatim>\<open>shoresquad-v0\<close>,
  the listener answers with the older entry, not with the entry of the current cache.
\<close>

theorem fetch_cache_hit_current_counterexample:
  "rmethod (get_request ''/index.html'') = ''GET''
   \<and> current_cache_match (caches state_stale_entry) (url (get_request ''/index.html''))
       = Some page_ok
   \<and> fetch_listener env_online state_stale_entry (get_request ''/index.html'')
       = (RespondWith (Some page_old), state_stale_entry)
   \<and> page_old \<noteq> page_ok"
  by (simp add: fetch_listener_def get_request_def state_stale_entry_def state_with_def
      current_cache_match_def named_cache_def CACHE_NAME_def cache_match_def page_old_def
      page_ok_def)

text \<open>
  Claim C2, amended. For a \<^verbatim>\<open>GET\<close> request whose key has an entry in some cache
  generation, the listener answers with the entry of the first generation, in creation
  order, that has the key, and the state, with the log of network requests in it, is
  unchanged: no network request is made. The answer is the entry of the current
  generation when that is the first generation to have the key, as it is when no
  generation was created before it. (By \<open>first_generation_with_key\<close> every storage
  with an entry for the key has such a first generation.)
\<close>

theorem fetch_cache_hit:
  assumes "rmethod req = ''GET''"
    and "caches st = pre @ (n, c) # post"
    and "\<forall>(n', c') \<in> set pre. cache_match c' (url req) = None"
    and "cache_match c (url req) = Some r"
  shows "caches_match (caches st) (url req) = Some r
       \<and> fetch_listener e st req = (RespondWith (Some r), st)
       \<and> dispatch_fetch e st req = (Delivered r, st)
       \<and> network_log (snd (dispatch_fetch e st req)) = network_log st
       \<and> (pre = [] \<and> post = [] \<and> n = CACHE_NAME \<longrightarrow>
            current_cache_match (caches st) (url req) = Some r)
       \<and> ((\<forall>(n', c') \<in> set pre. n' \<noteq> CACHE_NAME) \<and> n = CACHE_NAME \<longrightarrow>
            current_cache_match (caches st) (url req) = Some r)"
proof -
  from assms(3) have "caches_match pre (url req) = None"
    by (simp add: caches_match_None_iff)
  with assms(2,4) have m: "caches_match (caches st) (url req) = Some r"
    by (simp add: caches_match_append)
  with assms(1) have L: "fetch_listener e st req = (RespondWith (Some r), st)"
    by (simp add: fetch_listener_def)
  then have D: "dispatch_fetch e st req = (Delivered r, st)"
    by (simp add: dispatch_fetch_def)
  have cur: "(\<forall>(n', c') \<in> set pre. n' \<noteq> CACHE_NAME) \<and> n = CACHE_NAME \<longrightarrow>
            current_cache_match (caches st) (url req) = Some r"
  proof
    assume h: "(\<forall>(n', c') \<in> set pre. n' \<noteq> CACHE_NAME) \<and> n = CACHE_NAME"
    then have "map_of pre CACHE_NAME = None"
      by (force simp: map_of_eq_None_iff)
    with h assms(2,4) show "current_cache_match (caches st) (url req) = Some r"
      by (simp add: current_cache_match_def named_cache_def map_add_def)
  qed
  then have one: "pre = [] \<and> post = [] \<and> n = CACHE_NAME \<longrightarrow>
            current_cache_match (caches st) (url req) = Some r"
    by simp
  from m L D one cur show ?thesis by simp
qed

text \<open>
  The amended claim offline at a request for \<^verbatim>\<open>/index.html\<close>, cached in the
  current generation only, and at the storage with an older entry before it.
\<close>

theorem fetch_cache_hit_witness:
  "fetch_listener env_offline state_current (get_request ''/index.html'')
     = (RespondWith (Some page_ok), state_current)
   \<and> dispatch_fetch env_offline state_current (get_request ''/index.html'')
     = (Delivered page_ok, state_current)
   \<and> current_cache_match (caches state_current) ''/index.html'' = Some page_ok
   \<and> fetch_listener env_online state_stale_entry (get_request ''/index.html'')
     = (RespondWith (Some page_old), state_stale_entry)"
proof -
  have 1: "rmethod (get_request ''/index.html'') = ''GET''" by (simp add: get_request_def)
  have 2: "caches state_current = [] @ (''shoresquad-v1'', [(''/index.html'', page_ok)]) # []"
    by (simp add: state_current_def state_with_def)
  have 3: "\<forall>(n', c') \<in> set []. cache_match c' (url (get_request ''/index.html'')) = None"
    by simp
  have 4: "cache_match [(''/index.html'', page_ok)] (url (get_request ''/index.html'')) = Some page_ok"
    by (simp add: cache_match_def get_request_def)
  have 5: "caches state_stale_entry =
      [] @ (''shoresquad-v0'', [(''/index.html'', page_old)])
         # [(''shoresquad-v1'', [(''/index.html'', page_ok)])]"
    by (simp add: state_stale_entry_def state_with_def)
  have 6: "cache_match [(''/index.html'', page_old)] (url (get_request ''/index.html'')) = Some page_old"
    by (simp add: cache_match_def get_request_def)
  note A = fetch_cache_hit[OF 1 2 3 4, of env_offline]
  note B = fetch_cache_hit[OF 1 5 3 6, of env_online]
  have k: "[] = [] \<and> [] = [] \<and> ''shoresquad-v1'' = CACHE_NAME" by (simp add: CACHE_NAME_def)
  have a: "fetch_listener env_offline state_current (get_request ''/index.html'')
     = (RespondWith (Some page_ok), state_current)"
    by (rule A[THEN conjunct2, THEN conjunct1])
  have b: "dispatch_fetch env_offline state_current (get_request ''/index.html'')
     = (Delivered page_ok, state_current)"
    by (rule A[THEN conjunct2, THEN conjunct2, THEN conjunct1])
  have "current_cache_match (caches state_current) (url (get_request ''/index.html'')) = Some page_ok"
    by (rule A[THEN conjunct2, THEN conjunct2, THEN conjunct2, THEN conjunct2, THEN conjunct1,
          THEN mp, OF k])
  then have c: "current_cache_match (caches state_current) ''/index.html'' = Some page_ok"
    by (simp add: get_request_def)
  have d: "fetch_listener env_online state_stale_entry (get_request ''/index.html'')
     = (RespondWith (Some page_old), state_stale_entry)"
    by (rule B[THEN conjunct2, THEN conjunct1])
  from a b c d show ?thesis by simp
qed



text \<open>
  Claim C1, as stated, fails where the store fails: the request below misses the cache,
  the network answers with status 200 and type \<^verbatim>\<open>basic\<close>, the storage backend
  refuses the store, and no entry for the key exists afterwards.
\<close>

theorem fetch_store_failure_counterexample:
  "rmethod (get_request ''/events'') = ''GET''
   \<and> caches_match (caches state_empty) (url (get_request ''/events'')) = None
   \<and> net env_quota (get_request ''/events'') = Some events_ok
   \<and> status events_ok = 200 \<and> rtype events_ok \<noteq> Error
   \<and> fst (fetch_listener env_quota state_empty (get_request ''/events'')) = RespondWith (Some events_ok)
   \<and> caches (snd (fetch_listener env_quota state_empty (get_request ''/events'')))
       = [(''shoresquad-v1'', [])]
   \<and> caches_match (caches (snd (fetch_listener env_quota state_empty (get_request ''/events''))))
        ''/events'' = None"
  by (simp add: fetch_listener_def store_response_def get_request_def state_empty_def
      state_with_def env_quota_def events_ok_def caches_open_def caches_has_def CACHE_NAME_def
      cache_match_def)

text \<open>
  Claim C1, amended. For a \<^verbatim>\<open>GET\<close> request whose key is not in the cache and that
  the network answers, the listener hands that response to the caller as it is, and
  afterwards the key has an entry, holding that response, exactly when the status is
  200, the type is not \<^verbatim>\<open>error\<close> and the store does not fail. A response with
  another status or of type \<^verbatim>\<open>error\<close> leaves the cache storage as it was, and so
  does an opaque response, whose status is 0.
\<close>

theorem fetch_miss_network_response:
  assumes "rmethod req = ''GET''"
    and "caches_match (caches st) (url req) = None"
    and "net e req = Some resp"
  shows "fst (fetch_listener e st req) = RespondWith (Some resp)
       \<and> fst (dispatch_fetch e st req) = Delivered resp
       \<and> current_cache_match (caches (snd (fetch_listener e st req))) (url req) =
           (if status resp = 200 \<and> rtype resp \<noteq> Error \<and> store_error e (url req) = None
            then Some resp else None)
       \<and> caches_match (caches (snd (fetch_listener e st req))) (url req) =
           (if status resp = 200 \<and> rtype resp \<noteq> Error \<and> store_error e (url req) = None
            then Some resp else None)
       \<and> (status resp \<noteq> 200 \<or> rtype resp = Error \<longrightarrow>
            caches (snd (fetch_listener e st req)) = caches st)
       \<and> (rtype resp = Opaque \<and> status resp = 0 \<longrightarrow>
            caches (snd (fetch_listener e st req)) = caches st
            \<and> caches_match (caches (snd (fetch_listener e st req))) (url req) = None)"
proof -
  note L = fetch_listener_miss_response[OF assms]
  have open_miss: "caches_match (caches_open CACHE_NAME (caches st)) (url req) = None"
    by (simp add: caches_match_open assms(2))
  have a: "fst (fetch_listener e st req) = RespondWith (Some resp)"
    by (simp add: L)
  have b: "fst (dispatch_fetch e st req) = Delivered resp"
    by (simp add: dispatch_fetch_def L)
  have c: "current_cache_match (caches (snd (fetch_listener e st req))) (url req) =
           (if status resp = 200 \<and> rtype resp \<noteq> Error \<and> store_error e (url req) = None
            then Some resp else None)"
    by (auto simp: L caches_store_response current_match_put caches_has_open
        current_match_miss open_miss assms(2) split: option.splits)
  have d: "caches_match (caches (snd (fetch_listener e st req))) (url req) =
           (if status resp = 200 \<and> rtype resp \<noteq> Error \<and> store_error e (url req) = None
            then Some resp else None)"
    by (auto simp: L caches_store_response caches_match_put caches_has_open
        open_miss assms(2) split: option.splits)
  have f: "status resp \<noteq> 200 \<or> rtype resp = Error \<longrightarrow>
            caches (snd (fetch_listener e st req)) = caches st"
    by (auto simp: L)
  have g: "rtype resp = Opaque \<and> status resp = 0 \<longrightarrow>
            caches (snd (fetch_listener e st req)) = caches st
            \<and> caches_match (caches (snd (fetch_listener e st req))) (url req) = None"
    by (auto simp: L assms(2))
  from a b c d f g show ?thesis by blast
qed

text \<open>
  The amended claim at a request for \<^verbatim>\<open>/events\<close> with nothing cached, once
  answered with status 200 and once with an opaque response.
\<close>

theorem fetch_miss_network_response_witness:
  "fst (dispatch_fetch env_online state_empty (get_request ''/events'')) = Delivered page_ok
   \<and> current_cache_match
        (caches (snd (fetch_listener env_online state_empty (get_request ''/events''))))
        ''/events'' = Some page_ok
   \<and> fst (dispatch_fetch env_opaque state_empty (get_request ''/events''))
       = Delivered opaque_response
   \<and> caches (snd (fetch_listener env_opaque state_empty (get_request ''/events''))) = []"
proof -
  have 1: "rmethod (get_request ''/events'') = ''GET''" by (simp add: get_request_def)
  have 2: "caches_match (caches state_empty) (url (get_request ''/events'')) = None"
    by (simp add: state_empty_def state_with_def)
  have 3: "net env_online (get_request ''/events'') = Some page_ok" by (simp add: env_online_def)
  have 4: "net env_opaque (get_request ''/events'') = Some opaque_response"
    by (simp add: env_opaque_def)
  have 5: "rtype opaque_response = Opaque \<and> status opaque_response = 0"
    by (simp add: opaque_response_def)
  note A = fetch_miss_network_response[OF 1 2 3]
  note B = fetch_miss_network_response[OF 1 2 4]
  have a: "fst (dispatch_fetch env_online state_empty (get_request ''/events'')) = Delivered page_ok"
    by (rule A[THEN conjunct2, THEN conjunct1])
  have b: "current_cache_match
        (caches (snd (fetch_listener env_online state_empty (get_request ''/events''))))
        ''/events'' = Some page_ok"
    using A[THEN conjunct2, THEN conjunct2, THEN conjunct1]
    by (simp add: page_ok_def env_online_def get_request_def)
  have c: "fst (dispatch_fetch env_opaque state_empty (get_request ''/events''))
       = Delivered opaque_response"
    by (rule B[THEN conjunct2, THEN conjunct1])
  have "caches (snd (fetch_listener env_opaque state_empty (get_request ''/events'')))
       = caches state_empty"
    by (rule B[THEN conjunct2, THEN conjunct2, THEN conjunct2, THEN conjunct2, THEN conjunct2,
          THEN mp, OF 5, THEN conjunct1])
  then have d: "caches (snd (fetch_listener env_opaque state_empty (get_request ''/events''))) = []"
    by (simp add: state_empty_def state_with_def)
  from a b c d show ?thesis by simp
qed

text \<open>
  Claim C8, as stated, fails in its logging: at the request below the store fails, and
  the listener writes nothing to the console; the rejection is left unhandled.
\<close>

theorem fetch_store_failure_not_logged_counterexample:
  "rmethod (get_request ''/events'') = ''GET''
   \<and> caches_match (caches state_empty) (url (get_request ''/events'')) = None
   \<and> net env_quota (get_request ''/events'') = Some events_ok
   \<and> status events_ok = 200 \<and> rtype events_ok \<noteq> Error
   \<and> store_error env_quota (url (get_request ''/events'')) = Some QuotaExceededError
   \<and> console (snd (fetch_listener env_quota state_empty (get_request ''/events''))) = console state_empty
   \<and> unhandled (snd (fetch_listener env_quota state_empty (get_request ''/events''))) = [QuotaExceededError]"
  by (simp add: fetch_listener_def store_response_def get_request_def state_empty_def
      state_with_def env_quota_def events_ok_def)

text \<open>
  Claim C8, amended. When the store that follows a cacheable network response fails,
  the failure is swallowed without a log line: the caller gets the network response as
  it is, the console is unchanged, the rejection stays unhandled, and every lookup in
  the cache storage answers as before.
\<close>

theorem fetch_store_failure_swallowed:
  assumes "rmethod req = ''GET''"
    and "caches_match (caches st) (url req) = None"
    and "net e req = Some resp"
    and "status resp = 200"
    and "rtype resp \<noteq> Error"
    and "store_error e (url req) = Some err"
  shows "fetch_listener e st req =
           (RespondWith (Some resp),
            st\<lparr>network_log := network_log st @ [req],
               caches := caches_open CACHE_NAME (caches st),
               unhandled := unhandled st @ [err]\<rparr>)
       \<and> fst (dispatch_fetch e st req) = Delivered resp
       \<and> console (snd (fetch_listener e st req)) = console st
       \<and> caches_match (caches (snd (fetch_listener e st req))) = caches_match (caches st)"
proof -
  have L: "fetch_listener e st req =
           (RespondWith (Some resp),
            st\<lparr>network_log := network_log st @ [req],
               caches := caches_open CACHE_NAME (caches st),
               unhandled := unhandled st @ [err]\<rparr>)"
    using assms by (simp add: fetch_listener_def store_response_def)
  have "caches_match (caches_open CACHE_NAME (caches st)) = caches_match (caches st)"
    by (rule ext) (rule caches_match_open)
  with L show ?thesis by (simp add: dispatch_fetch_def)
qed

text \<open>
  The amended claim where the backend is out of quota.
\<close>

theorem fetch_store_failure_swallowed_witness:
  "fetch_listener env_quota state_empty (get_request ''/events'') =
     (RespondWith (Some events_ok),
      state_empty\<lparr>network_log := [get_request ''/events''],
                   caches := [(''shoresquad-v1'', [])],
                   unhandled := [QuotaExceededError]\<rparr>)
   \<and> fst (dispatch_fetch env_quota state_empty (get_request ''/events'')) = Delivered events_ok"
proof -
  have 1: "rmethod (get_request ''/events'') = ''GET''" by (simp add: get_request_def)
  have 2: "caches_match (caches state_empty) (url (get_request ''/events'')) = None"
    by (simp add: state_empty_def state_with_def)
  have 3: "net env_quota (get_request ''/events'') = Some events_ok" by (simp add: env_quota_def)
  have 4: "status events_ok = 200" and 5: "rtype events_ok \<noteq> Error"
    by (simp_all add: events_ok_def)
  have 6: "store_error env_quota (url (get_request ''/events'')) = Some QuotaExceededError"
    by (simp add: env_quota_def)
  from fetch_store_failure_swallowed[OF 1 2 3 4 5 6] show ?thesis
    by (simp add: state_empty_def state_with_def caches_open_def caches_has_def CACHE_NAME_def)
qed

text \<open>
  Claim C9, as stated, fails: with the key stored in the generation
  \<^verbatim>\<open>shoresquad-v0\<close> only, and no current generation at all, the request is a
  cache hit.
\<close>

theorem fetch_lookup_current_only_counterexample:
  "rmethod (get_request ''/events'') = ''GET''
   \<and> named_cache (caches state_old_generation) CACHE_NAME = None
   \<and> current_cache_match (caches state_old_generation) (url (get_request ''/events'')) = None
   \<and> fetch_listener env_offline state_old_generation (get_request ''/events'')
       = (RespondWith (Some events_ok), state_old_generation)"
  by (simp add: fetch_listener_def get_request_def state_old_generation_def state_with_def
      current_cache_match_def named_cache_def CACHE_NAME_def cache_match_def)

text \<open>
  Claim C9, amended. Step 1 looks the request up, by exact key match, in every existing
  cache generation: an entry in any generation, current or not, is a hit; the first
  generation in creation order that has the key answers; the request goes to the
  network only when no generation has the key; and when the current generation is the
  only one, the lookup is the lookup in the current generation.
\<close>

theorem fetch_lookup_every_generation:
  assumes "rmethod req = ''GET''"
  shows "((\<exists>n c. (n, c) \<in> set (caches st) \<and> cache_match c (url req) \<noteq> None) \<longrightarrow>
            (\<exists>r. fetch_listener e st req = (RespondWith (Some r), st)))
       \<and> (\<forall>pre n c post r.
             caches st = pre @ (n, c) # post
             \<and> (\<forall>(n', c') \<in> set pre. cache_match c' (url req) = None)
             \<and> cache_match c (url req) = Some r \<longrightarrow>
             fetch_listener e st req = (RespondWith (Some r), st))
       \<and> ((\<forall>(n, c) \<in> set (caches st). cache_match c (url req) = None) \<longrightarrow>
            network_log (snd (fetch_listener e st req)) = network_log st @ [req])
       \<and> (\<forall>c. caches st = [(CACHE_NAME, c)] \<longrightarrow>
            caches_match (caches st) (url req) = current_cache_match (caches st) (url req))"
proof -
  have a: "(\<exists>n c. (n, c) \<in> set (caches st) \<and> cache_match c (url req) \<noteq> None) \<longrightarrow>
            (\<exists>r. fetch_listener e st req = (RespondWith (Some r), st))"
  proof
    assume "\<exists>n c. (n, c) \<in> set (caches st) \<and> cache_match c (url req) \<noteq> None"
    then have "caches_match (caches st) (url req) \<noteq> None"
      unfolding caches_match_None_iff by fastforce
    then obtain r where "caches_match (caches st) (url req) = Some r" by auto
    with assms have "fetch_listener e st req = (RespondWith (Some r), st)"
      by (simp add: fetch_listener_def)
    then show "\<exists>r. fetch_listener e st req = (RespondWith (Some r), st)" ..
  qed
  have b: "\<forall>pre n c post r.
             caches st = pre @ (n, c) # post
             \<and> (\<forall>(n', c') \<in> set pre. cache_match c' (url req) = None)
             \<and> cache_match c (url req) = Some r \<longrightarrow>
             fetch_listener e st req = (RespondWith (Some r), st)"
  proof (intro allI impI)
    fix pre n c post r
    assume h: "caches st = pre @ (n, c) # post
             \<and> (\<forall>(n', c') \<in> set pre. cache_match c' (url req) = None)
             \<and> cache_match c (url req) = Some r"
    then have "caches_match pre (url req) = None"
      by (simp add: caches_match_None_iff)
    with h have "caches_match (caches st) (url req) = Some r"
      by (simp add: caches_match_append)
    with assms show "fetch_listener e st req = (RespondWith (Some r), st)"
      by (simp add: fetch_listener_def)
  qed
  have c: "(\<forall>(n, c) \<in> set (caches st). cache_match c (url req) = None) \<longrightarrow>
            network_log (snd (fetch_listener e st req)) = network_log st @ [req]"
  proof
    assume "\<forall>(n, c) \<in> set (caches st). cache_match c (url req) = None"
    then have m: "caches_match (caches st) (url req) = None"
      by (simp add: caches_match_None_iff)
    show "network_log (snd (fetch_listener e st req)) = network_log st @ [req]"
      using assms m
      by (simp add: fetch_listener_def store_response_def Let_def split: option.splits)
  qed
  have d: "\<forall>c. caches st = [(CACHE_NAME, c)] \<longrightarrow>
            caches_match (caches st) (url req) = current_cache_match (caches st) (url req)"
    by (simp add: current_cache_match_def named_cache_def split: option.splits)
  from a b c d show ?thesis by blast
qed

text \<open>
  The amended claim at a hit in an old generation, at a miss, and at a storage whose
  only generation is the current one.
\<close>

theorem fetch_lookup_every_generation_witness:
  "fetch_listener env_offline state_old_generation (get_request ''/events'')
       = (RespondWith (Some events_ok), state_old_generation)
   \<and> network_log (snd (fetch_listener env_offline state_empty (get_request ''/events'')))
       = [get_request ''/events'']
   \<and> caches_match (caches state_current) ''/index.html''
       = current_cache_match (caches state_current) ''/index.html''"
proof -
  have 1: "rmethod (get_request ''/events'') = ''GET''" by (simp add: get_request_def)
  have 2: "caches state_old_generation = [] @ (''shoresquad-v0'', [(''/events'', events_ok)]) # []
      \<and> (\<forall>(n', c') \<in> set []. cache_match c' (url (get_request ''/events'')) = None)
      \<and> cache_match [(''/events'', events_ok)] (url (get_request ''/events'')) = Some events_ok"
    by (simp add: state_old_generation_def state_with_def cache_match_def get_request_def)
  have 3: "\<forall>(n, c) \<in> set (caches state_empty). cache_match c (url (get_request ''/events'')) = None"
    by (simp add: state_empty_def state_with_def)
  have 4: "caches state_current = [(CACHE_NAME, [(''/index.html'', page_ok)])]"
    by (simp add: state_current_def state_with_def CACHE_NAME_def)
  have 5: "rmethod (get_request ''/index.html'') = ''GET''" by (simp add: get_request_def)
  note A = fetch_lookup_every_generation[OF 1, of state_old_generation env_offline]
  note B = fetch_lookup_every_generation[OF 1, of state_empty env_offline]
  note C = fetch_lookup_every_generation[OF 5, of state_current env_offline]
  have a: "fetch_listener env_offline state_old_generation (get_request ''/events'')
       = (RespondWith (Some events_ok), state_old_generation)"
    by (rule A[THEN conjunct2, THEN conjunct1, rule_format, OF 2])
  have b: "network_log (snd (fetch_listener env_offline state_empty (get_request ''/events'')))
       = network_log state_empty @ [get_request ''/events'']"
    by (rule B[THEN conjunct2, THEN conjunct2, THEN conjunct1, THEN mp, OF 3])
  have c: "caches_match (caches state_current) (url (get_request ''/index.html''))
       = current_cache_match (caches state_current) (url (get_request ''/index.html''))"
    by (rule C[THEN conjunct2, THEN conjunct2, THEN conjunct2, rule_format, OF 4])
  from a b c show ?thesis
    by (simp add: state_empty_def state_with_def get_request_def)
qed

section \<open>Activate\<close>

lemma caches_foldl_activate_step:
  "caches (foldl activate_step st names) =
     filter (\<lambda>(n, c). n = CACHE_NAME \<or> n \<notin> set names) (caches st)"
proof (induction names arbitrary: st)
  case Nil
  then show ?case by simp
next
  case (Cons a names)
  have "filter (\<lambda>(n, c). n = CACHE_NAME \<or> n \<notin> set names) (caches (activate_step st a)) =
        filter (\<lambda>(n, c). n = CACHE_NAME \<or> n \<notin> set (a # names)) (caches st)"
    by (auto simp: activate_step_def caches_delete_def intro!: filter_cong)
  with Cons.IH[of "activate_step st a"] show ?case by simp
qed

lemma console_foldl_activate_step:
  "console (foldl activate_step st names) =
     console st @ map (\<lambda>n. ''Deleting old cache: '' @ n) (filter (\<lambda>n. n \<noteq> CACHE_NAME) names)"
proof (induction names arbitrary: st)
  case Nil
  then show ?case by simp
next
  case (Cons a names)
  show ?case
    unfolding foldl_Cons Cons.IH[of "activate_step st a"]
    by (simp add: activate_step_def)
qed

lemma filter_current_generation:
  "filter (\<lambda>(n, c). n = CACHE_NAME \<or> n \<notin> set (map fst cs)) cs =
   filter (\<lambda>(n, c). n = CACHE_NAME) cs"
  by (rule filter_cong) force+

lemma named_cache_filter:
  "named_cache (filter (\<lambda>(n, c). n = name) cs) name = named_cache cs name"
  by (induction cs) (auto simp: named_cache_def)

text \<open>
  Claim C5. Whatever cache generations exist, activation settles without an error, and
  when it has settled the generations left are exactly those named \<open>CACHE_NAME\<close>,
  with their entries as they were: every generation of another name has been deleted,
  each deletion announced on the console, and no other. When every existing
  generation is the current one, the cache storage and the console are unchanged.
\<close>

theorem activate_deletes_stale_generations:
  "fst (activate_listener st) = Inr ()
   \<and> caches (snd (activate_listener st)) = filter (\<lambda>(n, c). n = CACHE_NAME) (caches st)
   \<and> console (snd (activate_listener st)) =
       console st @ map (\<lambda>n. ''Deleting old cache: '' @ n)
                        (filter (\<lambda>n. n \<noteq> CACHE_NAME) (caches_keys (caches st)))
   \<and> set (caches_keys (caches (snd (activate_listener st)))) \<subseteq> {CACHE_NAME}
   \<and> named_cache (caches (snd (activate_listener st))) CACHE_NAME = named_cache (caches st) CACHE_NAME
   \<and> ((\<forall>n \<in> set (caches_keys (caches st)). n = CACHE_NAME) \<longrightarrow>
        caches (snd (activate_listener st)) = caches st
        \<and> console (snd (activate_listener st)) = console st)"
proof -
  have a: "fst (activate_listener st) = Inr ()"
    by (simp add: activate_listener_def)
  have b: "caches (snd (activate_listener st)) = filter (\<lambda>(n, c). n = CACHE_NAME) (caches st)"
    using filter_current_generation[of "caches st"]
    by (simp add: activate_listener_def caches_foldl_activate_step caches_keys_def)
  have c: "console (snd (activate_listener st)) =
       console st @ map (\<lambda>n. ''Deleting old cache: '' @ n)
                        (filter (\<lambda>n. n \<noteq> CACHE_NAME) (caches_keys (caches st)))"
    by (simp add: activate_listener_def console_foldl_activate_step)
  have d: "set (caches_keys (caches (snd (activate_listener st)))) \<subseteq> {CACHE_NAME}"
    unfolding b by (auto simp: caches_keys_def)
  have e: "named_cache (caches (snd (activate_listener st))) CACHE_NAME
             = named_cache (caches st) CACHE_NAME"
    unfolding b by (rule named_cache_filter)
  have f: "(\<forall>n \<in> set (caches_keys (caches st)). n = CACHE_NAME) \<longrightarrow>
        caches (snd (activate_listener st)) = caches st
        \<and> console (snd (activate_listener st)) = console st"
  proof
    assume h: "\<forall>n \<in> set (caches_keys (caches st)). n = CACHE_NAME"
    then have "filter (\<lambda>(n, c). n = CACHE_NAME) (caches st) = caches st"
      by (auto simp: caches_keys_def filter_id_conv)
    moreover from h have "filter (\<lambda>n. n \<noteq> CACHE_NAME) (caches_keys (caches st)) = []"
      by (auto simp: filter_empty_conv)
    ultimately show "caches (snd (activate_listener st)) = caches st
        \<and> console (snd (activate_listener st)) = console st"
      unfolding b c by simp
  qed
  from a b c d e f show ?thesis by blast
qed

text \<open>
  The claim after a version change, generation \<^verbatim>\<open>shoresquad-v0\<close> beside the
  current one, and at a storage that holds the current generation only.
\<close>

theorem activate_deletes_stale_generations_witness:
  "caches (snd (activate_listener state_upgrade)) = [(''shoresquad-v1'', [(''/index.html'', page_ok)])]
   \<and> console (snd (activate_listener state_upgrade)) = [''Deleting old cache: shoresquad-v0'']
   \<and> caches_keys (caches state_current) = [CACHE_NAME]
   \<and> caches (snd (activate_listener state_current)) = caches state_current
   \<and> console (snd (activate_listener state_current)) = console state_current"
proof -
  have k: "caches_keys (caches state_current) = [CACHE_NAME]"
    by (simp add: state_current_def state_with_def caches_keys_def CACHE_NAME_def)
  then have h: "\<forall>n \<in> set (caches_keys (caches state_current)). n = CACHE_NAME"
    by simp
  note A = activate_deletes_stale_generations[of state_upgrade]
  note B = activate_deletes_stale_generations[of state_current]
  have a: "caches (snd (activate_listener state_upgrade)) = [(''shoresquad-v1'', [(''/index.html'', page_ok)])]"
    unfolding A[THEN conjunct2, THEN conjunct1]
    by (simp add: state_upgrade_def state_with_def CACHE_NAME_def)
  have b: "console (snd (activate_listener state_upgrade)) = [''Deleting old cache: shoresquad-v0'']"
    unfolding A[THEN conjunct2, THEN conjunct2, THEN conjunct1]
    by (simp add: state_upgrade_def state_with_def CACHE_NAME_def caches_keys_def)
  have c: "caches (snd (activate_listener state_current)) = caches state_current
        \<and> console (snd (activate_listener state_current)) = console state_current"
    by (rule B[THEN conjunct2, THEN conjunct2, THEN conjunct2, THEN conjunct2, THEN conjunct2,
          THEN mp, OF h])
  from a b c k show ?thesis by blast
qed

section \<open>Install\<close>

lemma addAll_responses_Inr:
  "addAll_responses e ps = Inr rs \<Longrightarrow>
     map fst rs = ps
     \<and> (\<forall>(p, r) \<in> set rs. net e (get_request p) = Some r \<and> addAll_acceptable r
                               \<and> store_error e p = None)"
  by (induction ps arbitrary: rs) (auto split: option.splits if_splits sum.splits)

lemma addAll_responses_ok:
  "\<forall>p \<in> set ps. \<exists>r. net e (get_request p) = Some r \<and> addAll_acceptable r
                        \<and> store_error e p = None \<Longrightarrow>
   \<exists>rs. addAll_responses e ps = Inr rs"
  by (induction ps) auto

lemma addAll_responses_ok_iff:
  "(\<exists>rs. addAll_responses e ps = Inr rs) \<longleftrightarrow>
   (\<forall>p \<in> set ps. \<exists>r. net e (get_request p) = Some r \<and> addAll_acceptable r
                        \<and> store_error e p = None)"
proof
  assume "\<exists>rs. addAll_responses e ps = Inr rs"
  then obtain rs where rs: "addAll_responses e ps = Inr rs" ..
  from addAll_responses_Inr[OF rs] have keys: "map fst rs = ps"
    and all: "\<forall>(p, r) \<in> set rs. net e (get_request p) = Some r \<and> addAll_acceptable r
                               \<and> store_error e p = None" by auto
  show "\<forall>p \<in> set ps. \<exists>r. net e (get_request p) = Some r \<and> addAll_acceptable r
                        \<and> store_error e p = None"
  proof
    fix p assume "p \<in> set ps"
    with keys have "p \<in> fst ` set rs" by (metis set_map)
    then obtain r where "(p, r) \<in> set rs" by auto
    with all show "\<exists>r. net e (get_request p) = Some r \<and> addAll_acceptable r
                        \<and> store_error e p = None" by auto
  qed
next
  assume "\<forall>p \<in> set ps. \<exists>r. net e (get_request p) = Some r \<and> addAll_acceptable r
                        \<and> store_error e p = None"
  then show "\<exists>rs. addAll_responses e ps = Inr rs" by (rule addAll_responses_ok)
qed

lemma caches_has_put: "caches_has (cache_put name key r cs) n = caches_has cs n"
  by (induction cs) (auto simp: caches_has_def cache_put_def)

lemma current_match_put_all_other:
  "caches_has cs CACHE_NAME \<Longrightarrow> k \<notin> fst ` set rs \<Longrightarrow>
   current_cache_match (put_all CACHE_NAME rs cs) k = current_cache_match cs k"
  by (induction rs arbitrary: cs) (auto simp: current_match_put caches_has_put)

lemma current_match_put_all:
  "caches_has cs CACHE_NAME \<Longrightarrow> distinct (map fst rs) \<Longrightarrow> (p, r) \<in> set rs \<Longrightarrow>
   current_cache_match (put_all CACHE_NAME rs cs) p = Some r"
proof (induction rs arbitrary: cs)
  case Nil
  then show ?case by simp
next
  case (Cons a rs)
  obtain p' r' where a: "a = (p', r')" by (cases a)
  have has: "caches_has (cache_put CACHE_NAME p' r' cs) CACHE_NAME"
    using Cons.prems(1) by (simp add: caches_has_put)
  show ?case
  proof (cases "(p, r) \<in> set rs")
    case True
    with Cons.IH[OF has] Cons.prems(2) a show ?thesis by simp
  next
    case False
    with Cons.prems(3) a have eq: "p' = p" "r' = r" by auto
    with Cons.prems(2) a have "p \<notin> fst ` set rs" by auto
    with has eq a Cons.prems(1) show ?thesis
      by (simp add: current_match_put_all_other current_match_put)
  qed
qed

lemma install_listener_eq:
  "install_listener e st =
     (case addAll_responses e ASSETS_TO_CACHE of
        Inl err \<Rightarrow>
          (Inl err,
           st\<lparr>skip_waiting := True,
              caches := caches_open CACHE_NAME (caches st),
              console := console st @ [''Caching app shell''],
              network_log := network_log st @ map get_request ASSETS_TO_CACHE\<rparr>)
      | Inr rs \<Rightarrow>
          (Inr (),
           st\<lparr>skip_waiting := True,
              caches := put_all CACHE_NAME rs (caches_open CACHE_NAME (caches st)),
              console := console st @ [''Caching app shell''],
              network_log := network_log st @ map get_request ASSETS_TO_CACHE\<rparr>))"
  by (simp add: install_listener_def cache_addAll_def Let_def split: sum.splits)

lemma distinct_ASSETS_TO_CACHE: "distinct ASSETS_TO_CACHE"
  by (simp add: ASSETS_TO_CACHE_def)

text \<open>
  Claim C6. Installation succeeds exactly when every path of the asset list is fetched
  with an acceptable response and stored; then every path has its network response as
  its entry in the current generation, and the worker is installed and, the waiting
  phase skipped, activated. When the fetch of any path fails, installation fails as a
  whole: the promise given to \<^verbatim>\<open>waitUntil\<close> rejects, no entry is added to any
  generation (the current generation exists afterwards, empty if it was not there
  before), the worker becomes redundant instead of installed, and the activate listener
  never runs.
\<close>

theorem install_all_or_nothing:
  "(fst (install_listener e st) = Inr () \<longleftrightarrow>
      (\<forall>p \<in> set ASSETS_TO_CACHE. \<exists>r. net e (get_request p) = Some r \<and> addAll_acceptable r
                                       \<and> store_error e p = None))
   \<and> (fst (install_listener e st) = Inr () \<longrightarrow>
        (\<forall>p \<in> set ASSETS_TO_CACHE.
            net e (get_request p) \<noteq> None
            \<and> current_cache_match (caches (snd (install_listener e st))) p = net e (get_request p))
        \<and> fst (run_install e st) = Installed
        \<and> fst (run_lifecycle e st) = Activated)
   \<and> ((\<exists>p \<in> set ASSETS_TO_CACHE. net e (get_request p) = None) \<longrightarrow>
        fst (install_listener e st) \<noteq> Inr ())
   \<and> (fst (install_listener e st) \<noteq> Inr () \<longrightarrow>
        (\<exists>err. fst (install_listener e st) = Inl err)
        \<and> caches (snd (install_listener e st)) = caches_open CACHE_NAME (caches st)
        \<and> (\<forall>key. caches_match (caches (snd (install_listener e st))) key
                   = caches_match (caches st) key)
        \<and> fst (run_install e st) = Redundant
        \<and> run_lifecycle e st = (Redundant, snd (install_listener e st))
        \<and> clients_claimed (snd (run_lifecycle e st)) = clients_claimed st)"
proof -
  note I = install_listener_eq[of e st]
  have ok_iff: "fst (install_listener e st) = Inr () \<longleftrightarrow>
      (\<exists>rs. addAll_responses e ASSETS_TO_CACHE = Inr rs)"
    by (simp add: I split: sum.splits)
  have a: "fst (install_listener e st) = Inr () \<longleftrightarrow>
      (\<forall>p \<in> set ASSETS_TO_CACHE. \<exists>r. net e (get_request p) = Some r \<and> addAll_acceptable r
                                       \<and> store_error e p = None)"
    unfolding ok_iff by (rule addAll_responses_ok_iff)
  have b: "fst (install_listener e st) = Inr () \<longrightarrow>
        (\<forall>p \<in> set ASSETS_TO_CACHE.
            net e (get_request p) \<noteq> None
            \<and> current_cache_match (caches (snd (install_listener e st))) p = net e (get_request p))
        \<and> fst (run_install e st) = Installed
        \<and> fst (run_lifecycle e st) = Activated"
  proof
    assume "fst (install_listener e st) = Inr ()"
    with ok_iff obtain rs where rs: "addAll_responses e ASSETS_TO_CACHE = Inr rs" by auto
    from addAll_responses_Inr[OF rs] have keys: "map fst rs = ASSETS_TO_CACHE"
      and nets: "\<forall>(p, r) \<in> set rs. net e (get_request p) = Some r" by auto
    from keys have dist: "distinct (map fst rs)" by (simp add: distinct_ASSETS_TO_CACHE)
    have "\<forall>p \<in> set ASSETS_TO_CACHE.
            net e (get_request p) \<noteq> None
            \<and> current_cache_match (caches (snd (install_listener e st))) p = net e (get_request p)"
    proof
      fix p assume "p \<in> set ASSETS_TO_CACHE"
      with keys have "p \<in> fst ` set rs" by (metis set_map)
      then obtain r where pr: "(p, r) \<in> set rs" by auto
      with nets have n: "net e (get_request p) = Some r" by auto
      from current_match_put_all[OF caches_has_open dist pr, of "caches st"]
      have "current_cache_match (caches (snd (install_listener e st))) p = Some r"
        by (simp add: I rs)
      with n show "net e (get_request p) \<noteq> None
            \<and> current_cache_match (caches (snd (install_listener e st))) p = net e (get_request p)"
        by simp
    qed
    moreover have "fst (run_install e st) = Installed"
      by (simp add: run_install_def I rs)
    moreover have "fst (run_lifecycle e st) = Activated"
      by (simp add: run_lifecycle_def run_install_def I rs)
    ultimately show "(\<forall>p \<in> set ASSETS_TO_CACHE.
            net e (get_request p) \<noteq> None
            \<and> current_cache_match (caches (snd (install_listener e st))) p = net e (get_request p))
        \<and> fst (run_install e st) = Installed
        \<and> fst (run_lifecycle e st) = Activated" by blast
  qed
  have c: "(\<exists>p \<in> set ASSETS_TO_CACHE. net e (get_request p) = None) \<longrightarrow>
        fst (install_listener e st) \<noteq> Inr ()"
    unfolding a by fastforce
  have d: "fst (install_listener e st) \<noteq> Inr () \<longrightarrow>
        (\<exists>err. fst (install_listener e st) = Inl err)
        \<and> caches (snd (install_listener e st)) = caches_open CACHE_NAME (caches st)
        \<and> (\<forall>key. caches_match (caches (snd (install_listener e st))) key
                   = caches_match (caches st) key)
        \<and> fst (run_install e st) = Redundant
        \<and> run_lifecycle e st = (Redundant, snd (install_listener e st))
        \<and> clients_claimed (snd (run_lifecycle e st)) = clients_claimed st"
  proof
    assume "fst (install_listener e st) \<noteq> Inr ()"
    with ok_iff obtain err where err: "addAll_responses e ASSETS_TO_CACHE = Inl err"
      by (cases "addAll_responses e ASSETS_TO_CACHE") auto
    show "(\<exists>err. fst (install_listener e st) = Inl err)
        \<and> caches (snd (install_listener e st)) = caches_open CACHE_NAME (caches st)
        \<and> (\<forall>key. caches_match (caches (snd (install_listener e st))) key
                   = caches_match (caches st) key)
        \<and> fst (run_install e st) = Redundant
        \<and> run_lifecycle e st = (Redundant, snd (install_listener e st))
        \<and> clients_claimed (snd (run_lifecycle e st)) = clients_claimed st"
      by (simp add: I err run_install_def run_lifecycle_def caches_match_open)
  qed
  from a b c d show ?thesis by blast
qed

text \<open>
  The claim online with nothing cached, where all five paths are stored, and offline
  beside an old generation, where installation fails and the old generation stays.
\<close>

theorem install_all_or_nothing_witness:
  "fst (install_listener env_online state_empty) = Inr ()
   \<and> map (current_cache_match (caches (snd (install_listener env_online state_empty))))
         ASSETS_TO_CACHE
       = [Some page_ok, Some page_ok, Some page_ok, Some page_ok, Some page_ok]
   \<and> fst (run_lifecycle env_online state_empty) = Activated
   \<and> net env_offline (get_request ''/manifest.json'') = None
   \<and> fst (install_listener env_offline state_old_generation) \<noteq> Inr ()
   \<and> caches (snd (install_listener env_offline state_old_generation))
       = [(''shoresquad-v0'', [(''/events'', events_ok)]), (''shoresquad-v1'', [])]
   \<and> fst (run_lifecycle env_offline state_old_generation) = Redundant
   \<and> clients_claimed (snd (run_lifecycle env_offline state_old_generation)) = False"
proof -
  note A = install_all_or_nothing[of env_online state_empty]
  note B = install_all_or_nothing[of env_offline state_old_generation]
  have ok: "\<forall>p \<in> set ASSETS_TO_CACHE. \<exists>r. net env_online (get_request p) = Some r
               \<and> addAll_acceptable r \<and> store_error env_online p = None"
    by (simp add: env_online_def addAll_acceptable_def page_ok_def)
  have a: "fst (install_listener env_online state_empty) = Inr ()"
    using A[THEN conjunct1] ok by (rule iffD2)
  note A2 = A[THEN conjunct2, THEN conjunct1, THEN mp, OF a]
  have "\<forall>p \<in> set ASSETS_TO_CACHE.
         current_cache_match (caches (snd (install_listener env_online state_empty))) p = Some page_ok"
    using A2[THEN conjunct1] by (simp add: env_online_def)
  then have b: "map (current_cache_match (caches (snd (install_listener env_online state_empty))))
         ASSETS_TO_CACHE
       = [Some page_ok, Some page_ok, Some page_ok, Some page_ok, Some page_ok]"
    by (simp add: ASSETS_TO_CACHE_def)
  have c: "fst (run_lifecycle env_online state_empty) = Activated"
    by (rule A2[THEN conjunct2, THEN conjunct2])
  have n: "net env_offline (get_request ''/manifest.json'') = None"
    by (simp add: env_offline_def)
  then have off: "\<exists>p \<in> set ASSETS_TO_CACHE. net env_offline (get_request p) = None"
    by (auto simp: ASSETS_TO_CACHE_def)
  have d: "fst (install_listener env_offline state_old_generation) \<noteq> Inr ()"
    by (rule B[THEN conjunct2, THEN conjunct2, THEN conjunct1, THEN mp, OF off])
  note B2 = B[THEN conjunct2, THEN conjunct2, THEN conjunct2, THEN mp, OF d]
  have e: "caches (snd (install_listener env_offline state_old_generation))
       = [(''shoresquad-v0'', [(''/events'', events_ok)]), (''shoresquad-v1'', [])]"
    unfolding B2[THEN conjunct2, THEN conjunct1]
    by (simp add: state_old_generation_def state_with_def caches_open_def caches_has_def
        CACHE_NAME_def)
  have f: "fst (run_lifecycle env_offline state_old_generation) = Redundant"
    by (simp add: B2[THEN conjunct2, THEN conjunct2, THEN conjunct2, THEN conjunct2, THEN conjunct1])
  have g: "clients_claimed (snd (run_lifecycle env_offline state_old_generation)) = False"
    unfolding B2[THEN conjunct2, THEN conjunct2, THEN conjunct2, THEN conjunct2, THEN conjunct2]
    by (simp add: state_old_generation_def state_with_def)
  from a b c n d e f g show ?thesis by blast
qed

section \<open>Handle Push\<close>

lemma push_listener_object:
  "json d = Inr (JObj props) \<Longrightarrow>
   push_listener (Some d) st =
     (Inr (), showNotification ''ShoreSquad''
                (default_options\<lparr>body := js_or (map_of props ''body'') default_body\<rparr>) st)"
  by (simp add: push_listener_def default_options_def)

text \<open>
  Claim C7, as stated, fails: for a payload that does not parse, \<^verbatim>\<open>json()\<close> throws
  in the listener, which ends with that exception and shows no notification.
\<close>

theorem push_invalid_payload_counterexample:
  "json invalid_payload = Inl SyntaxError
   \<and> fst (push_listener (Some invalid_payload) state_empty) = Inl SyntaxError
   \<and> notifications (snd (push_listener (Some invalid_payload) state_empty)) = []"
  by (simp add: push_listener_def invalid_payload_def state_empty_def state_with_def)

text \<open>
  Claim C7, amended. For a push event without a payload the listener substitutes an
  empty object and shows the notification with the canned default body text, without an
  error; for a payload that is present and fails to parse, the exception of the parse
  leaves the listener and nothing is shown.
\<close>

theorem push_payload_fallback:
  "push_listener None st = (Inr (), showNotification ''ShoreSquad'' default_options st)
   \<and> body default_options = default_body
   \<and> (\<forall>err. json d = Inl err \<longrightarrow> push_listener (Some d) st = (Inl err, st))"
  by (simp add: push_listener_def default_options_def js_or_def)

text \<open>
  The amended claim at an event without payload and at an unparsable payload.
\<close>

theorem push_payload_fallback_witness:
  "notifications (snd (push_listener None state_empty)) = [(''ShoreSquad'', default_options)]
   \<and> push_listener (Some invalid_payload) state_empty = (Inl SyntaxError, state_empty)"
proof -
  have h: "json invalid_payload = Inl SyntaxError" by (simp add: invalid_payload_def)
  note A = push_payload_fallback[of state_empty invalid_payload]
  have a: "notifications (snd (push_listener None state_empty)) = [(''ShoreSquad'', default_options)]"
    unfolding A[THEN conjunct1]
    by (simp add: showNotification_def state_empty_def state_with_def)
  have b: "push_listener (Some invalid_payload) state_empty = (Inl SyntaxError, state_empty)"
    by (rule A[THEN conjunct2, THEN conjunct2, rule_format, OF h])
  from a b show ?thesis ..
qed

text \<open>
  Claim C10. When the payload parses to an object whose \<^verbatim>\<open>body\<close> is the empty
  string, or any other falsy value, the notification shown carries the canned default
  body text, which is not the empty string; a truthy \<^verbatim>\<open>body\<close> is shown as it is.
\<close>

theorem push_falsy_body_default:
  assumes "json d = Inr (JObj props)"
    and "map_of props ''body'' = Some v"
  shows "(v = JStr [] \<or> \<not> truthy v \<longrightarrow>
            push_listener (Some d) st =
              (Inr (), showNotification ''ShoreSquad'' default_options st)
            \<and> body default_options = default_body
            \<and> default_body \<noteq> JStr [])
       \<and> (truthy v \<longrightarrow>
            push_listener (Some d) st =
              (Inr (), showNotification ''ShoreSquad'' (default_options\<lparr>body := v\<rparr>) st))"
  using assms
  by (auto simp: push_listener_object js_or_def default_options_def default_body_def)

text \<open>
  The claim at the payload \<^verbatim>\<open>{"body": ""}\<close>.
\<close>

theorem push_falsy_body_default_witness:
  "notifications (snd (push_listener (Some empty_body_payload) state_empty))
     = [(''ShoreSquad'', default_options)]
   \<and> body default_options = JStr ''New update from ShoreSquad!''"
proof -
  have 1: "json empty_body_payload = Inr (JObj [(''body'', JStr [])])"
    by (simp add: empty_body_payload_def)
  have 2: "map_of [(''body'', JStr [])] ''body'' = Some (JStr [])" by simp
  have 3: "JStr [] = JStr [] \<or> \<not> truthy (JStr [])" by simp
  note A = push_falsy_body_default[OF 1 2, of state_empty, THEN conjunct1, THEN mp, OF 3]
  have a: "notifications (snd (push_listener (Some empty_body_payload) state_empty))
     = [(''ShoreSquad'', default_options)]"
    unfolding A[THEN conjunct1]
    by (simp add: showNotification_def state_empty_def state_with_def)
  have b: "body default_options = JStr ''New update from ShoreSquad!''"
    using A[THEN conjunct2, THEN conjunct1] by (simp add: default_body_def)
  from a b show ?thesis ..
qed

end
